theory Spec2Isabelle
  imports Main "HOL-Library.Monad_Syntax" "HOL-Library.Word"
begin

section \<open>The memory pool of \<^verbatim>\<open>pool.c\<close>\<close>

text \<open>
  The pool keeps two doubly linked lists of \<^verbatim>\<open>struct llnode\<close>, reached from
  \<^verbatim>\<open>p->active\<close> and \<^verbatim>\<open>p->available\<close>. The functions rewire \<^verbatim>\<open>prev\<close> and
  \<^verbatim>\<open>next\<close> by hand, and what they do depends on which node a pointer really points to,
  so the nodes live in an explicit store: a pointer is the index of a node in the store
  (\<open>None\<close> is \<^verbatim>\<open>NULL\<close>), \<^verbatim>\<open>malloc\<close> appends a cell and returns its index, \<^verbatim>\<open>free\<close> empties the
  cell. An index is never handed out twice, so a pointer to a freed node stays
  recognisable.

  Every function returns an \<open>option\<close>: \<open>None\<close> says that the C program has no defined
  result there (a failed \<^verbatim>\<open>assert\<close>, a read or write through \<^verbatim>\<open>NULL\<close> or through a pointer to
  freed memory, a second \<^verbatim>\<open>free\<close> of the same node, an access outside the buffer, signed
  overflow, or a loop that never ends). The results the C functions themselves report
  (\<^verbatim>\<open>NULL\<close>, \<^verbatim>\<open>false\<close>) are ordinary values inside \<open>Some\<close>.

  A \<^verbatim>\<open>char *\<close> into the buffer is modelled by its offset from \<^verbatim>\<open>p->h\<close>. \<^verbatim>\<open>malloc\<close> is
  assumed to succeed, as the source assumes.
\<close>

subsection \<open>Data\<close>

type_synonym ptr = "nat option"

record llnode =
  s :: int
  start :: int
  prev :: ptr
  next' :: ptr

text \<open>
  \<open>h\<close> holds the bytes of the buffer; a byte that was never written is \<open>None\<close>.
  \<open>nodes\<close> is the store of list nodes. \<open>live\<close> says that the \<^verbatim>\<open>struct pool\<close> and its
  buffer are still allocated; \<^verbatim>\<open>pool_destroy\<close> frees both together.
\<close>

record pool =
  h :: "8 word option list"
  active :: ptr
  available :: ptr
  nodes :: "llnode option list"
  live :: bool

subsection \<open>Memory primitives\<close>

definition assert :: "bool \<Rightarrow> unit option" where
  "assert b = (if b then Some () else None)"

text \<open>Reading through a pointer: defined only for a node that is allocated.\<close>

definition node_at :: "pool \<Rightarrow> ptr \<Rightarrow> llnode option" where
  "node_at p q =
     (case q of
        None \<Rightarrow> None
      | Some a \<Rightarrow> if a < length (nodes p) then nodes p ! a else None)"

text \<open>Writing one field through a pointer.\<close>

definition store :: "ptr \<Rightarrow> (llnode \<Rightarrow> llnode) \<Rightarrow> pool \<Rightarrow> pool option" where
  "store q f p =
     (case q of
        None \<Rightarrow> None
      | Some a \<Rightarrow>
          (case node_at p q of
             None \<Rightarrow> None
           | Some n \<Rightarrow> Some (p\<lparr>nodes := (nodes p)[a := Some (f n)]\<rparr>)))"

definition set_s :: "ptr \<Rightarrow> int \<Rightarrow> pool \<Rightarrow> pool option" where
  "set_s q v p = store q (\<lambda>n. n\<lparr>s := v\<rparr>) p"

definition set_prev :: "ptr \<Rightarrow> ptr \<Rightarrow> pool \<Rightarrow> pool option" where
  "set_prev q v p = store q (\<lambda>n. n\<lparr>prev := v\<rparr>) p"

definition set_next :: "ptr \<Rightarrow> ptr \<Rightarrow> pool \<Rightarrow> pool option" where
  "set_next q v p = store q (\<lambda>n. n\<lparr>next' := v\<rparr>) p"

text \<open>\<^verbatim>\<open>free(q)\<close>: nothing for \<^verbatim>\<open>NULL\<close>, undefined for a node that is not allocated.\<close>

definition free_node :: "ptr \<Rightarrow> pool \<Rightarrow> pool option" where
  "free_node q p =
     (case q of
        None \<Rightarrow> Some p
      | Some a \<Rightarrow>
          (case node_at p q of
             None \<Rightarrow> None
           | Some n \<Rightarrow> Some (p\<lparr>nodes := (nodes p)[a := None]\<rparr>)))"

text \<open>\<^verbatim>\<open>a += b\<close> on \<^verbatim>\<open>int\<close>: undefined when the sum leaves the range of a 32-bit \<^verbatim>\<open>int\<close>.\<close>

definition int_add :: "int \<Rightarrow> int \<Rightarrow> int option" where
  "int_add a b =
     (if - 2147483648 \<le> a + b \<and> a + b \<le> 2147483647 then Some (a + b) else None)"

subsection \<open>Nodes and the pool's lifecycle\<close>

text \<open>
  \<^verbatim>\<open>create_node\<close> asserts \<^verbatim>\<open>size > 0\<close> and \<^verbatim>\<open>begin\<close>; the second holds for every pointer
  into the buffer, which is all it is ever called with.
\<close>

definition create_node :: "int \<Rightarrow> int \<Rightarrow> pool \<Rightarrow> (ptr \<times> pool) option" where
  "create_node size' begin p = do {
     assert (size' > 0);
     Some (Some (length (nodes p)),
           p\<lparr>nodes := nodes p @ [Some \<lparr>s = size', start = begin, prev = None, next' = None\<rparr>]\<rparr>)
   }"

definition pool_create :: "int \<Rightarrow> pool option" where
  "pool_create size' = do {
     assert (size' > 0);
     let p = \<lparr>h = replicate (nat size') None, active = None, available = None,
              nodes = [], live = True\<rparr>;
     (node, p) \<leftarrow> create_node size' 0 p;
     Some (p\<lparr>available := node\<rparr>)
   }"

definition pool_destroy :: "pool \<Rightarrow> (bool \<times> pool) option" where
  "pool_destroy p = do {
     assert (live p);
     if active p \<noteq> None then Some (False, p)
     else do {
       p \<leftarrow> free_node (available p) p;
       Some (True, p\<lparr>h := [], live := False\<rparr>)
     }
   }"

subsection \<open>Moving nodes between the lists\<close>

partial_function (option) add_active_loop :: "pool \<Rightarrow> ptr \<Rightarrow> ptr \<Rightarrow> ptr option" where
  "add_active_loop p curr_node node = do {
     c \<leftarrow> node_at p curr_node;
     n \<leftarrow> node_at p node;
     if start c < start n \<and> next' c \<noteq> None
     then add_active_loop p (next' c) node
     else Some curr_node
   }"

declare add_active_loop.simps [code]

definition add_active :: "ptr \<Rightarrow> pool \<Rightarrow> pool option" where
  "add_active node p = do {
     assert (node \<noteq> None);
     if active p \<noteq> None then do {
       curr_node \<leftarrow> add_active_loop p (active p) node;
       c \<leftarrow> node_at p curr_node;
       n \<leftarrow> node_at p node;
       let pre_node = prev c;
       if start c > start n then do {
         p \<leftarrow> (if pre_node = None then Some (p\<lparr>active := node\<rparr>)
               else set_next pre_node node p);
         p \<leftarrow> set_prev node pre_node p;
         p \<leftarrow> set_next node curr_node p;
         set_prev curr_node node p
       } else do {
         p \<leftarrow> set_next curr_node node p;
         p \<leftarrow> set_prev node curr_node p;
         set_next node None p
       }
     } else do {
       p \<leftarrow> set_prev node None p;
       p \<leftarrow> set_next node None p;
       Some (p\<lparr>active := node\<rparr>)
     }
   }"

definition same_size_available :: "ptr \<Rightarrow> pool \<Rightarrow> pool option" where
  "same_size_available node p = do {
     n \<leftarrow> node_at p node;
     let pre_node = prev n;
     let next_node = next' n;
     if pre_node = None \<and> next_node = None then Some (p\<lparr>available := None\<rparr>)
     else if next_node = None then set_next pre_node None p
     else if pre_node = None then do {
       p \<leftarrow> set_prev next_node None p;
       Some (p\<lparr>available := next_node\<rparr>)
     } else do {
       p \<leftarrow> set_next pre_node next_node p;
       set_prev next_node pre_node p
     }
   }"

definition more_size_available :: "ptr \<Rightarrow> pool \<Rightarrow> int \<Rightarrow> pool option" where
  "more_size_available node p size' = do {
     assert (size' > 0);
     n \<leftarrow> node_at p node;
     let node_size = s n;
     let next_node = next' n;
     let pre_node = prev n;
     let new_start = start n + size';
     (new_node, p) \<leftarrow> create_node (node_size - size') new_start p;
     p \<leftarrow> (if pre_node = None then set_prev new_node None (p\<lparr>available := new_node\<rparr>)
           else do {
             p \<leftarrow> set_next pre_node new_node p;
             set_prev new_node pre_node p
           });
     p \<leftarrow> (if next_node = None then set_next new_node next_node p
           else do {
             p \<leftarrow> set_next new_node next_node p;
             set_prev next_node new_node p
           });
     set_s node size' p
   }"

subsection \<open>\<^verbatim>\<open>pool_alloc\<close>\<close>

partial_function (option) pool_alloc_loop ::
  "pool \<Rightarrow> ptr \<Rightarrow> int \<Rightarrow> (int option \<times> pool) option" where
  "pool_alloc_loop p node size' =
     (if node = None then Some (None, p)
      else do {
        n \<leftarrow> node_at p node;
        let node_size = s n;
        let next_node = next' n;
        if node_size < size' then pool_alloc_loop p next_node size'
        else do {
          p \<leftarrow> (if node_size = size' then same_size_available node p
                else if node_size > size' then more_size_available node p size'
                else Some p);
          p \<leftarrow> add_active node p;
          n \<leftarrow> node_at p node;
          Some (Some (start n), p)
        }
      })"

declare pool_alloc_loop.simps [code]

definition pool_alloc :: "pool \<Rightarrow> int \<Rightarrow> (int option \<times> pool) option" where
  "pool_alloc p size' = do {
     assert (live p);
     assert (size' > 0);
     if available p \<noteq> None then pool_alloc_loop p (available p) size'
     else Some (None, p)
   }"

subsection \<open>\<^verbatim>\<open>pool_free\<close>\<close>

partial_function (option) add_available_loop :: "pool \<Rightarrow> ptr \<Rightarrow> ptr \<Rightarrow> ptr option" where
  "add_available_loop p curr_node node = do {
     c \<leftarrow> node_at p curr_node;
     let next_node = next' c;
     n \<leftarrow> node_at p node;
     if start c > start n then Some curr_node
     else if next_node = None then Some curr_node
     else add_available_loop p next_node node
   }"

declare add_available_loop.simps [code]

definition add_available :: "ptr \<Rightarrow> pool \<Rightarrow> pool option" where
  "add_available node p = do {
     assert (node \<noteq> None);
     if available p \<noteq> None then do {
       curr_node \<leftarrow> add_available_loop p (available p) node;
       c \<leftarrow> node_at p curr_node;
       n \<leftarrow> node_at p node;
       let (pre_node, curr_node) =
             (if start c > start n then (prev c, curr_node) else (curr_node, None));
       (new_prev, p) \<leftarrow>
          (if pre_node = None then Some (node, p\<lparr>available := node\<rparr>)
           else do {
             pn \<leftarrow> node_at p pre_node;
             if start pn + s pn = start n then do {
               v \<leftarrow> int_add (s pn) (s n);
               p \<leftarrow> set_s pre_node v p;
               p \<leftarrow> free_node node p;
               Some (pre_node, p)
             } else do {
               p \<leftarrow> set_next pre_node node p;
               p \<leftarrow> set_prev node pre_node p;
               Some (node, p)
             }
           });
       if curr_node = None then set_next new_prev None p
       else do {
         np \<leftarrow> node_at p new_prev;
         c \<leftarrow> node_at p curr_node;
         if start np + s np = start c then do {
           v \<leftarrow> int_add (s np) (s c);
           p \<leftarrow> set_s new_prev v p;
           c \<leftarrow> node_at p curr_node;
           p \<leftarrow> set_next new_prev (next' c) p;
           c \<leftarrow> node_at p curr_node;
           p \<leftarrow> (if next' c \<noteq> None then set_prev (next' c) new_prev p else Some p);
           free_node curr_node p
         } else do {
           p \<leftarrow> set_next new_prev curr_node p;
           set_prev curr_node new_prev p
         }
       }
     } else do {
       p \<leftarrow> set_next node None p;
       p \<leftarrow> set_prev node None p;
       Some (p\<lparr>available := node\<rparr>)
     }
   }"

partial_function (option) pool_free_loop ::
  "pool \<Rightarrow> ptr \<Rightarrow> int \<Rightarrow> (bool \<times> pool) option" where
  "pool_free_loop p node addr =
     (if node = None then Some (False, p)
      else do {
        n \<leftarrow> node_at p node;
        if start n = addr then do {
          let pre_node = prev n;
          let next_node = next' n;
          p \<leftarrow> (if pre_node = None \<and> next_node = None then Some (p\<lparr>active := None\<rparr>)
                else if next_node = None then set_next pre_node None p
                else if pre_node = None then set_prev next_node None (p\<lparr>active := next_node\<rparr>)
                else do {
                  p \<leftarrow> set_next pre_node next_node p;
                  set_prev next_node pre_node p
                });
          p \<leftarrow> add_available node p;
          Some (True, p)
        } else pool_free_loop p (next' n) addr
      })"

declare pool_free_loop.simps [code]

definition pool_free :: "pool \<Rightarrow> int \<Rightarrow> (bool \<times> pool) option" where
  "pool_free p addr = do {
     assert (live p);
     pool_free_loop p (active p) addr
   }"

subsection \<open>\<^verbatim>\<open>pool_realloc\<close>\<close>

partial_function (option) find_active_loop :: "pool \<Rightarrow> ptr \<Rightarrow> int \<Rightarrow> ptr option" where
  "find_active_loop p node addr =
     (if node = None then Some None
      else do {
        n \<leftarrow> node_at p node;
        if start n = addr then Some node
        else find_active_loop p (next' n) addr
      })"

declare find_active_loop.simps [code]

definition find_active :: "int \<Rightarrow> pool \<Rightarrow> ptr option" where
  "find_active addr p = find_active_loop p (active p) addr"

partial_function (option) find_available_loop ::
  "pool \<Rightarrow> ptr \<Rightarrow> int \<Rightarrow> int \<Rightarrow> (ptr \<times> pool) option" where
  "find_available_loop p node addr size' =
     (if node = None then Some (None, p)
      else do {
        n \<leftarrow> node_at p node;
        if start n \<le> addr then
          (if start n = addr then
             (if s n < size' then Some (None, p)
              else do {
                p \<leftarrow> (if s n = size' then same_size_available node p
                      else more_size_available node p size');
                Some (node, p)
              })
           else find_available_loop p (next' n) addr size')
        else Some (None, p)
      })"

declare find_available_loop.simps [code]

definition find_available :: "int \<Rightarrow> int \<Rightarrow> pool \<Rightarrow> (ptr \<times> pool) option" where
  "find_available addr size' p = do {
     assert (size' > 0);
     find_available_loop p (available p) addr size'
   }"

text \<open>
  The copying loop of \<^verbatim>\<open>pool_realloc\<close>, \<^verbatim>\<open>my_start[i] = node->start[i]\<close> for \<open>i\<close> from 0
  upwards: \<open>copy_bytes k dst src\<close> copies the \<open>k\<close> bytes that are left, lowest offset first.
  An offset outside the buffer is undefined.
\<close>

fun copy_bytes :: "nat \<Rightarrow> int \<Rightarrow> int \<Rightarrow> 8 word option list \<Rightarrow> 8 word option list option" where
  "copy_bytes 0 dst src buf = Some buf"
| "copy_bytes (Suc k) dst src buf =
     (if 0 \<le> src \<and> src < int (length buf) \<and> 0 \<le> dst \<and> dst < int (length buf)
      then copy_bytes k (dst + 1) (src + 1) (buf[nat dst := buf ! nat src])
      else None)"

definition pool_realloc :: "pool \<Rightarrow> int \<Rightarrow> int \<Rightarrow> (int option \<times> pool) option" where
  "pool_realloc p addr size' = do {
     assert (live p);
     assert (size' > 0);
     node \<leftarrow> find_active addr p;
     if node = None then Some (None, p)
     else do {
       n \<leftarrow> node_at p node;
       if s n = size' then Some (Some (start n), p)
       else if s n > size' then do {
         (new_available, p) \<leftarrow> create_node (s n - size') (start n + size') p;
         p \<leftarrow> add_available new_available p;
         p \<leftarrow> set_s node size' p;
         n \<leftarrow> node_at p node;
         Some (Some (start n), p)
       } else do {
         let extra = addr + s n;
         (new_active, p) \<leftarrow> find_available extra (size' - s n) p;
         if new_active = None then do {
           (my_start, p) \<leftarrow> pool_alloc p size';
           (case my_start of
              Some dst \<Rightarrow> do {
                n \<leftarrow> node_at p node;
                buf \<leftarrow> copy_bytes (nat (s n)) dst (start n) (h p);
                (_, p) \<leftarrow> pool_free (p\<lparr>h := buf\<rparr>) addr;
                Some (Some dst, p)
              }
            | None \<Rightarrow> Some (None, p))
         } else do {
           p \<leftarrow> free_node new_active p;
           p \<leftarrow> set_s node size' p;
           n \<leftarrow> node_at p node;
           Some (Some (start n), p)
         }
       }
     }
   }"

subsection \<open>The two listings\<close>

text \<open>
  \<^verbatim>\<open>pool_print_active\<close> and \<^verbatim>\<open>pool_print_available\<close> walk a list from its head along
  \<^verbatim>\<open>next\<close> and print, for every node, its offset \<^verbatim>\<open>node->start - p->h\<close> and its length.
  The model returns these pairs in the order printed; they are what "the Blocks of the
  list" means below.
\<close>

partial_function (option) print_loop :: "pool \<Rightarrow> ptr \<Rightarrow> (int \<times> int) list option" where
  "print_loop p node =
     (if node = None then Some []
      else do {
        n \<leftarrow> node_at p node;
        rest \<leftarrow> print_loop p (next' n);
        Some ((start n, s n) # rest)
      })"

declare print_loop.simps [code]

definition pool_print_active :: "pool \<Rightarrow> (int \<times> int) list option" where
  "pool_print_active p = do { assert (live p); print_loop p (active p) }"

definition pool_print_available :: "pool \<Rightarrow> (int \<times> int) list option" where
  "pool_print_available p = do { assert (live p); print_loop p (available p) }"

subsection \<open>Sequences of calls\<close>

text \<open>
  A client creates a pool and then calls \<^verbatim>\<open>pool_alloc\<close>, \<^verbatim>\<open>pool_free\<close>, \<^verbatim>\<open>pool_realloc\<close>
  and, at the end, \<^verbatim>\<open>pool_destroy\<close>. \<open>run capacity cs\<close> performs the calls \<open>cs\<close> in order on
  a fresh pool and returns what each call returned together with the final pool. It is
  \<open>None\<close> as soon as one call has no defined result.
\<close>

datatype call = Allocate int | Release int | Resize int int | Destroy

datatype result = Offset "int option" | Done bool

fun call_pool :: "call \<Rightarrow> pool \<Rightarrow> (result \<times> pool) option" where
  "call_pool (Allocate n) p = map_option (map_prod Offset id) (pool_alloc p n)"
| "call_pool (Release a) p = map_option (map_prod Done id) (pool_free p a)"
| "call_pool (Resize a n) p = map_option (map_prod Offset id) (pool_realloc p a n)"
| "call_pool Destroy p = map_option (map_prod Done id) (pool_destroy p)"

fun calls :: "call list \<Rightarrow> pool \<Rightarrow> (result list \<times> pool) option" where
  "calls [] p = Some ([], p)"
| "calls (c # cs) p = do {
     (r, p) \<leftarrow> call_pool c p;
     (rs, p) \<leftarrow> calls cs p;
     Some (r # rs, p)
   }"

definition run :: "int \<Rightarrow> call list \<Rightarrow> (result list \<times> pool) option" where
  "run capacity cs = do { p \<leftarrow> pool_create capacity; calls cs p }"

text \<open>What a client can see of a run: the results and the two listings of the final pool.\<close>

definition observe ::
  "result list \<times> pool \<Rightarrow> result list \<times> (int \<times> int) list option \<times> (int \<times> int) list option" where
  "observe rp = (fst rp, pool_print_active (snd rp), pool_print_available (snd rp))"

text \<open>\<^verbatim>\<open>p->available\<close> is not \<^verbatim>\<open>NULL\<close> and points to a node that has been freed.\<close>

definition available_dangling :: "result list \<times> pool \<Rightarrow> bool" where
  "available_dangling rp =
     (available (snd rp) \<noteq> None \<and> node_at (snd rp) (available (snd rp)) = None)"

text \<open>The nodes that are still allocated, as (offset, length), in the order of the store.\<close>

definition allocated_nodes :: "result list \<times> pool \<Rightarrow> (int \<times> int) list" where
  "allocated_nodes rp = map (\<lambda>n. (start n, s n)) (List.map_filter id (nodes (snd rp)))"

subsection \<open>The properties the specification states about the two lists\<close>

text \<open>
  Blocks are (offset, length) pairs. \<open>covering bs i\<close> are the blocks of \<open>bs\<close> that contain
  byte \<open>i\<close>. The blocks partition the buffer exactly when every byte of \<open>[0, capacity)\<close> is in
  exactly one of them and no block reaches outside.
\<close>

definition covering :: "(int \<times> int) list \<Rightarrow> int \<Rightarrow> (int \<times> int) list" where
  "covering bs i = filter (\<lambda>b. fst b \<le> i \<and> i < fst b + snd b) bs"

definition exact_partition :: "int \<Rightarrow> (int \<times> int) list \<Rightarrow> bool" where
  "exact_partition capacity bs =
     (list_all (\<lambda>i. length (covering bs i) = 1) [0..capacity - 1] \<and>
      list_all (\<lambda>b. 0 \<le> fst b \<and> 0 < snd b \<and> fst b + snd b \<le> capacity) bs)"

text \<open>Two blocks of a list are address-adjacent: one ends where the other starts.\<close>

definition adjacent_pair :: "(int \<times> int) list \<Rightarrow> bool" where
  "adjacent_pair bs = list_ex (\<lambda>b. list_ex (\<lambda>c. fst b + snd b = fst c) bs) bs"

text \<open>
  Every node that is allocated in the first pool is allocated in the second, at the same
  offset: no write changed a \<^verbatim>\<open>start\<close>.
\<close>

definition keeps_starts :: "pool \<Rightarrow> pool \<Rightarrow> bool" where
  "keeps_starts p p' =
     (\<forall>q n. node_at p q = Some n \<longrightarrow> map_option start (node_at p' q) = Some (start n))"

section \<open>Facts that hold in every pool state\<close>

subsection \<open>A failing call changes nothing\<close>

lemma pool_free_loop_false:
  assumes "pool_free_loop p node addr = Some r"
  shows "fst r = False \<longrightarrow> snd r = p"
proof (rule pool_free_loop.raw_induct[where P = "\<lambda>p node addr r. fst r = False \<longrightarrow> snd r = p",
      OF _ assms], goal_cases)
  case (1 loop p node addr r)
  from 1(2) show ?case
    by (auto simp: Let_def split: if_splits Option.bind_splits dest: 1(1))
qed

lemma pool_alloc_loop_none:
  assumes "pool_alloc_loop p node size' = Some r"
  shows "fst r = None \<longrightarrow> snd r = p"
proof (rule pool_alloc_loop.raw_induct[where P = "\<lambda>p node size' r. fst r = None \<longrightarrow> snd r = p",
      OF _ assms], goal_cases)
  case (1 loop p node size' r)
  from 1(2) show ?case
    by (auto simp: Let_def split: if_splits Option.bind_splits dest: 1(1))
qed

lemma find_available_loop_none:
  assumes "find_available_loop p node addr size' = Some r"
  shows "fst r = None \<longrightarrow> snd r = p"
proof (rule find_available_loop.raw_induct[where
        P = "\<lambda>p node addr size' r. fst r = None \<longrightarrow> snd r = p", OF _ assms], goal_cases)
  case (1 loop p node addr size' r)
  from 1(2) show ?case
    by (auto simp: Let_def split: if_splits Option.bind_splits dest: 1(1))
qed

lemma pool_free_false_unchanged:
  "pool_free p addr = Some (False, p') \<Longrightarrow> p' = p"
  using pool_free_loop_false[of p "active p" addr "(False, p')"]
  by (auto simp: pool_free_def assert_def split: if_splits Option.bind_splits)

lemma pool_alloc_none_unchanged:
  "pool_alloc p size' = Some (None, p') \<Longrightarrow> p' = p"
  using pool_alloc_loop_none[of p "available p" size' "(None, p')"]
  by (auto simp: pool_alloc_def assert_def split: if_splits Option.bind_splits)

lemma find_available_none_unchanged:
  "find_available addr size' p = Some (None, p') \<Longrightarrow> p' = p"
  using find_available_loop_none[of p "available p" addr size' "(None, p')"]
  by (auto simp: find_available_def assert_def split: if_splits Option.bind_splits)

lemma pool_realloc_none_unchanged:
  assumes "pool_realloc p addr size' = Some (None, p')"
  shows "p' = p"
  using assms
  apply (simp add: pool_realloc_def assert_def Let_def
      split: if_splits Option.bind_splits prod.splits option.splits)
  apply (auto dest: find_available_none_unchanged pool_alloc_none_unchanged)
  done

lemma pool_destroy_false:
  "pool_destroy p = Some (False, p') \<longleftrightarrow> live p \<and> active p \<noteq> None \<and> p' = p"
  by (auto simp: pool_destroy_def assert_def split: if_splits Option.bind_splits)

subsection \<open>The lookup by address\<close>

lemma find_active_loop_found:
  assumes "find_active_loop p node addr = Some r"
  shows "\<forall>a. r = Some a \<longrightarrow> (\<exists>n. node_at p (Some a) = Some n \<and> start n = addr)"
proof (rule find_active_loop.raw_induct[where
        P = "\<lambda>p node addr r. \<forall>a. r = Some a \<longrightarrow> (\<exists>n. node_at p (Some a) = Some n \<and> start n = addr)",
        OF _ assms], goal_cases)
  case (1 loop p node addr r)
  from 1(2) show ?case
    by (auto split: if_splits Option.bind_splits dest: 1(1))
qed

text \<open>
  Where the listing of a list is defined, the lookup finds the first listed block that
  starts at the address.
\<close>

lemma print_loop_first:
  assumes "print_loop p node = Some bs"
  shows "\<forall>addr len. map_of bs addr = Some len \<longrightarrow>
    (\<exists>a n. find_active_loop p node addr = Some (Some a) \<and> node_at p (Some a) = Some n
       \<and> start n = addr \<and> s n = len)"
proof (rule print_loop.raw_induct[where
        P = "\<lambda>p node bs. \<forall>addr len. map_of bs addr = Some len \<longrightarrow>
          (\<exists>a n. find_active_loop p node addr = Some (Some a) \<and> node_at p (Some a) = Some n
             \<and> start n = addr \<and> s n = len)", OF _ assms], goal_cases)
  case (1 loop p node bs)
  show ?case
  proof (intro allI impI)
    fix addr len
    assume m: "map_of bs addr = Some len"
    show "\<exists>a n. find_active_loop p node addr = Some (Some a) \<and> node_at p (Some a) = Some n
       \<and> start n = addr \<and> s n = len"
    proof (cases node)
      case None
      with 1(2) m show ?thesis by simp
    next
      case (Some b)
      with 1(2) obtain n rest where
        n: "node_at p node = Some n" and rest: "loop p (next' n) = Some rest"
        and bs: "bs = (start n, s n) # rest"
        by (auto split: Option.bind_splits)
      show ?thesis
      proof (cases "start n = addr")
        case True
        with n bs m Some show ?thesis
          by (subst find_active_loop.simps) auto
      next
        case False
        with bs m have "map_of rest addr = Some len" by simp
        with 1(1)[OF rest] False n Some show ?thesis
          by (subst find_active_loop.simps) auto
      qed
    qed
  qed
qed

subsection \<open>The link that \<^verbatim>\<open>add_available\<close> leaves behind\<close>

text \<open>
  When the node handed to \<^verbatim>\<open>add_available\<close> lies before the first node of a non-empty
  available list (and does not touch it), it becomes the new head, and its \<^verbatim>\<open>prev\<close> is
  left as it was: the branch \<^verbatim>\<open>if (pre_node == NULL)\<close> sets \<^verbatim>\<open>p->available\<close> only. For a
  node that \<^verbatim>\<open>pool_free\<close> has just unlinked this is its old neighbour in the active list.
  The branch for an empty available list does reset \<^verbatim>\<open>prev\<close>.
\<close>

lemma add_available_head_keeps_prev:
  assumes c: "available p = Some c" "node_at p (Some c) = Some cn"
    and a: "node_at p (Some a) = Some n"
    and lt: "start n < start cn" and hd: "prev cn = None"
    and gap: "start n + s n \<noteq> start cn"
  shows "\<exists>p'. add_available (Some a) p = Some p' \<and> available p' = Some a \<and>
           map_option prev (node_at p' (Some a)) = Some (prev n)"
proof -
  from a c lt have ne: "a \<noteq> c" by auto
  from a have la: "a < length (nodes p)" "nodes p ! a = Some n"
    by (auto simp: node_at_def split: if_splits)
  from c have lc: "c < length (nodes p)" "nodes p ! c = Some cn"
    by (auto simp: node_at_def split: if_splits)
  have loop: "add_available_loop p (Some c) (Some a) = Some (Some c)"
    using c a lt by (subst add_available_loop.simps) simp
  show ?thesis
    using c a lt hd gap ne la lc loop
    by (simp add: add_available_def assert_def node_at_def set_next_def set_prev_def store_def)
qed

lemma add_available_empty_resets_prev:
  assumes "available p = None" and "node_at p (Some a) = Some n"
  shows "\<exists>p'. add_available (Some a) p = Some p' \<and> available p' = Some a \<and>
           map_option prev (node_at p' (Some a)) = Some None"
  using assms
  by (auto simp: add_available_def assert_def node_at_def set_next_def set_prev_def store_def
      split: if_splits)

subsection \<open>What \<^verbatim>\<open>pool_free\<close> returns\<close>

text \<open>
  Where the active listing is defined, a release that returns at all returns true exactly
  when the address is the offset of a listed block.
\<close>

lemma pool_free_loop_true_iff:
  assumes "print_loop p node = Some bs"
  shows "\<forall>addr r. pool_free_loop p node addr = Some r \<longrightarrow> (fst r \<longleftrightarrow> addr \<in> fst ` set bs)"
proof (rule print_loop.raw_induct[where
        P = "\<lambda>p node bs. \<forall>addr r. pool_free_loop p node addr = Some r \<longrightarrow> (fst r \<longleftrightarrow> addr \<in> fst ` set bs)",
        OF _ assms], goal_cases)
  case (1 loop p node bs)
  show ?case
  proof (intro allI impI)
    fix addr r
    assume f: "pool_free_loop p node addr = Some r"
    show "fst r \<longleftrightarrow> addr \<in> fst ` set bs"
    proof (cases node)
      case None
      with 1(2) f show ?thesis
        by (auto simp: pool_free_loop.simps)
    next
      case (Some b)
      with 1(2) obtain n rest where
        n: "node_at p node = Some n" and rest: "loop p (next' n) = Some rest"
        and bs: "bs = (start n, s n) # rest"
        by (auto split: Option.bind_splits)
      show ?thesis
      proof (cases "start n = addr")
        case True
        from f n Some True have "fst r"
          by (subst (asm) pool_free_loop.simps)
             (auto simp: Let_def split: if_splits Option.bind_splits)
        with True bs show ?thesis by simp
      next
        case False
        from f n Some False have "pool_free_loop p (next' n) addr = Some r"
          by (subst (asm) pool_free_loop.simps) auto
        with 1(1)[OF rest] have "fst r \<longleftrightarrow> addr \<in> fst ` set rest" by blast
        with False bs show ?thesis by auto
      qed
    qed
  qed
qed

lemma pool_free_true_iff:
  assumes "pool_print_active p = Some bs" and "pool_free p addr = Some (r, p')"
  shows "r \<longleftrightarrow> addr \<in> fst ` set bs"
proof -
  from assms(1) have lv: "live p" and pl: "print_loop p (active p) = Some bs"
    by (auto simp: pool_print_active_def assert_def split: if_splits Option.bind_splits)
  from assms(2) lv have "pool_free_loop p (active p) addr = Some (r, p')"
    by (simp add: pool_free_def assert_def)
  with pool_free_loop_true_iff[OF pl] show ?thesis by fastforce
qed

subsection \<open>What \<^verbatim>\<open>pool_alloc\<close> returns\<close>

text \<open>
  The writes of an allocation never change the offset of a node. So, where the available
  listing is defined, an allocation that returns at all returns the offset of the first
  listed block that is long enough, and \<^verbatim>\<open>NULL\<close> when there is none.
\<close>

lemma keeps_starts_refl: "keeps_starts p p"
  by (simp add: keeps_starts_def)

lemma keeps_starts_trans: "keeps_starts p p' \<Longrightarrow> keeps_starts p' p'' \<Longrightarrow> keeps_starts p p''"
  by (fastforce simp: keeps_starts_def)

lemma node_at_field:
  "node_at (p\<lparr>active := x\<rparr>) q = node_at p q"
  "node_at (p\<lparr>available := x\<rparr>) q = node_at p q"
  "node_at (p\<lparr>h := y\<rparr>) q = node_at p q"
  by (cases q; simp add: node_at_def)+

lemma keeps_starts_field:
  "keeps_starts (p\<lparr>active := x\<rparr>) p' = keeps_starts p p'"
  "keeps_starts (p\<lparr>available := x\<rparr>) p' = keeps_starts p p'"
  "keeps_starts p (p'\<lparr>active := x\<rparr>) = keeps_starts p p'"
  "keeps_starts p (p'\<lparr>available := x\<rparr>) = keeps_starts p p'"
  by (simp_all add: keeps_starts_def node_at_field)

lemma store_keeps_starts:
  assumes "store q f p = Some p'" and "\<And>n. start (f n) = start n"
  shows "keeps_starts p p'"
  using assms
  by (auto simp: keeps_starts_def store_def node_at_def nth_list_update
      split: option.splits if_splits)

lemma set_keeps_starts:
  "set_s q v p = Some p' \<Longrightarrow> keeps_starts p p'"
  "set_prev q w p = Some p' \<Longrightarrow> keeps_starts p p'"
  "set_next q w p = Some p' \<Longrightarrow> keeps_starts p p'"
  by (auto simp: set_s_def set_prev_def set_next_def intro: store_keeps_starts)

lemma create_node_keeps_starts:
  "create_node size' begin p = Some (q, p') \<Longrightarrow> keeps_starts p p'"
  by (auto simp: create_node_def assert_def keeps_starts_def node_at_def nth_append
      split: if_splits option.splits)

lemma same_size_available_keeps_starts:
  "same_size_available node p = Some p' \<Longrightarrow> keeps_starts p p'"
  by (auto simp: same_size_available_def Let_def keeps_starts_field
      split: if_splits Option.bind_splits
      dest!: set_keeps_starts intro: keeps_starts_refl; blast intro: keeps_starts_trans)

lemma more_size_available_keeps_starts:
  "more_size_available node p size' = Some p' \<Longrightarrow> keeps_starts p p'"
  by (auto simp: more_size_available_def Let_def assert_def keeps_starts_field
      split: if_splits Option.bind_splits
      dest!: set_keeps_starts create_node_keeps_starts; blast intro: keeps_starts_trans)

lemma add_active_keeps_starts:
  "add_active node p = Some p' \<Longrightarrow> keeps_starts p p'"
  by (auto simp: add_active_def Let_def assert_def keeps_starts_field
      split: if_splits Option.bind_splits
      dest!: set_keeps_starts; blast intro: keeps_starts_trans)


lemma pool_alloc_loop_first_fit:
  assumes "print_loop p node = Some bs"
  shows "\<forall>size' r. pool_alloc_loop p node size' = Some r \<longrightarrow>
           fst r = map_option fst (List.find (\<lambda>b. size' \<le> snd b) bs)"
proof (rule print_loop.raw_induct[where
        P = "\<lambda>p node bs. \<forall>size' r. pool_alloc_loop p node size' = Some r \<longrightarrow>
           fst r = map_option fst (List.find (\<lambda>b. size' \<le> snd b) bs)",
        OF _ assms], goal_cases)
  case (1 loop p node bs)
  show ?case
  proof (intro allI impI)
    fix size' r
    assume f: "pool_alloc_loop p node size' = Some r"
    show "fst r = map_option fst (List.find (\<lambda>b. size' \<le> snd b) bs)"
    proof (cases node)
      case None
      with 1(2) f show ?thesis
        by (auto simp: pool_alloc_loop.simps)
    next
      case (Some b)
      with 1(2) obtain n rest where
        n: "node_at p node = Some n" and rest: "loop p (next' n) = Some rest"
        and bs: "bs = (start n, s n) # rest"
        by (auto split: Option.bind_splits)
      show ?thesis
      proof (cases "s n < size'")
        case True
        from f n Some True have "pool_alloc_loop p (next' n) size' = Some r"
          by (subst (asm) pool_alloc_loop.simps) (auto simp: Let_def)
        with 1(1)[OF rest] have "fst r = map_option fst (List.find (\<lambda>b. size' \<le> snd b) rest)"
          by blast
        with True bs show ?thesis by simp
      next
        case False
        from f n Some False obtain p1 p2 n2 where
          p1: "(if s n = size' then same_size_available node p
                else more_size_available node p size') = Some p1"
          and p2: "add_active node p1 = Some p2"
          and n2: "node_at p2 node = Some n2" and r: "r = (Some (start n2), p2)"
          by (subst (asm) pool_alloc_loop.simps)
             (auto simp: Let_def split: if_splits Option.bind_splits)
        from p1 have "keeps_starts p p1"
          by (auto split: if_splits
              dest: same_size_available_keeps_starts more_size_available_keeps_starts)
        with add_active_keeps_starts[OF p2] have "keeps_starts p p2"
          by (blast intro: keeps_starts_trans)
        with n n2 have "start n2 = start n"
          by (fastforce simp: keeps_starts_def)
        with r False bs show ?thesis by simp
      qed
    qed
  qed
qed

lemma pool_alloc_first_fit:
  assumes "pool_print_available p = Some bs" and "pool_alloc p size' = Some (r, p')"
  shows "r = map_option fst (List.find (\<lambda>b. size' \<le> snd b) bs)"
proof -
  from assms(1) have lv: "live p" and pl: "print_loop p (available p) = Some bs"
    by (auto simp: pool_print_available_def assert_def split: if_splits Option.bind_splits)
  show ?thesis
  proof (cases "available p")
    case None
    with assms(2) pl show ?thesis
      by (auto simp: pool_alloc_def assert_def print_loop.simps split: if_splits)
  next
    case (Some a)
    with assms(2) lv have "pool_alloc_loop p (available p) size' = Some (r, p')"
      by (auto simp: pool_alloc_def assert_def split: if_splits)
    with pool_alloc_loop_first_fit[OF pl] show ?thesis by fastforce
  qed
qed

section \<open>The claims\<close>

text \<open>
  C8. In every pool state whose active listing is defined: if the block that starts at
  \<open>addr\<close> in the active list (the first one listed at that offset, which is the one the
  lookup finds) has length \<open>len\<close>, and \<open>len\<close> is positive, then \<^verbatim>\<open>pool_realloc\<close> with the
  same length returns \<open>addr\<close> and leaves the whole pool (both lists, every node, the buffer)
  as it was. This covers every reachable state, since it assumes nothing else of the pool.
\<close>

theorem resize_same_length:
  assumes "pool_print_active p = Some bs" and "map_of bs addr = Some len" and "0 < len"
  shows "pool_realloc p addr len = Some (Some addr, p)"
proof -
  from assms(1) have lv: "live p" and pl: "print_loop p (active p) = Some bs"
    by (auto simp: pool_print_active_def assert_def split: if_splits Option.bind_splits)
  from print_loop_first[OF pl] assms(2) obtain a n where
    f: "find_active_loop p (active p) addr = Some (Some a)" and
    n: "node_at p (Some a) = Some n" "start n = addr" "s n = len"
    by blast
  show ?thesis
    using lv f n assms(3) by (simp add: pool_realloc_def find_active_def assert_def)
qed

text \<open>
  The pool after \<^verbatim>\<open>pool_create(10)\<close> and \<^verbatim>\<open>pool_alloc(p, 3)\<close> has the active block (0, 3);
  resizing it to 3 returns 0 and changes nothing.
\<close>

theorem resize_same_length_witness:
  "run 10 [Allocate 3] = Some ([Offset (Some 0)],
     \<lparr>h = replicate 10 None, active = Some 0, available = Some 1,
      nodes = [Some \<lparr>s = 3, start = 0, prev = None, next' = None\<rparr>,
               Some \<lparr>s = 7, start = 3, prev = None, next' = None\<rparr>],
      live = True\<rparr>) \<and>
   pool_realloc
     \<lparr>h = replicate 10 None, active = Some 0, available = Some 1,
      nodes = [Some \<lparr>s = 3, start = 0, prev = None, next' = None\<rparr>,
               Some \<lparr>s = 7, start = 3, prev = None, next' = None\<rparr>],
      live = True\<rparr> 0 3 =
   Some (Some 0,
     \<lparr>h = replicate 10 None, active = Some 0, available = Some 1,
      nodes = [Some \<lparr>s = 3, start = 0, prev = None, next' = None\<rparr>,
               Some \<lparr>s = 7, start = 3, prev = None, next' = None\<rparr>],
      live = True\<rparr>)"
proof -
  let ?p = "\<lparr>h = replicate 10 None, active = Some 0, available = Some 1,
      nodes = [Some \<lparr>s = 3, start = 0, prev = None, next' = None\<rparr>,
               Some \<lparr>s = 7, start = 3, prev = None, next' = None\<rparr>],
      live = True\<rparr>"
  have r: "run 10 [Allocate 3] = Some ([Offset (Some 0)], ?p)"
    by code_simp
  have l: "pool_print_active ?p = Some [(0, 3)]"
    by code_simp
  have m: "map_of [(0, 3)] (0::int) = Some (3::int)"
    by simp
  have "pool_realloc ?p 0 3 = Some (Some 0, ?p)"
    using resize_same_length[OF l m] by simp
  with r show ?thesis by simp
qed

text \<open>
  C1. The two lists do not always partition the buffer. After \<^verbatim>\<open>pool_create(10)\<close>, two
  allocations of 3 bytes and the release of the second one (offset 3), the node of the free
  block (3, 7) heads the available list with \<^verbatim>\<open>prev\<close> still pointing to the active node
  of (0, 3). Allocating 7 bytes then takes the branch \<^verbatim>\<open>next_node == NULL\<close> of
  \<^verbatim>\<open>same_size_available\<close>, which leaves \<^verbatim>\<open>p->available\<close> alone: the call returns 3, and the
  block (3, 7) is listed as active and as available, so every byte from 3 to 9 belongs to
  two blocks.
\<close>

theorem partition_lost_after_exact_fit:
  "map_option observe (run 10 [Allocate 3, Allocate 3, Release 3, Allocate 7]) =
     Some ([Offset (Some 0), Offset (Some 3), Done True, Offset (Some 3)],
           Some [(0, 3), (3, 7)], Some [(3, 7)]) \<and>
   covering ([(0, 3), (3, 7)] @ [(3, 7)]) 3 = [(3, 7), (3, 7)] \<and>
   \<not> exact_partition 10 ([(0, 3), (3, 7)] @ [(3, 7)])"
  by code_simp

text \<open>
  C2. The available list can hold two address-adjacent blocks. From the same state (10
  bytes, two allocations of 3, the second released), allocating 2 bytes splits the free
  block (3, 7) in \<^verbatim>\<open>more_size_available\<close>, which links the new tail (5, 5) behind the
  stale \<^verbatim>\<open>prev\<close> and does not move \<^verbatim>\<open>p->available\<close>; \<^verbatim>\<open>add_active\<close> then links the tail
  behind the allocated node. The available list now reads (3, 2), (5, 5): the allocated
  block followed by the block that starts where it ends.
\<close>

theorem adjacent_free_blocks_after_split:
  "map_option observe (run 10 [Allocate 3, Allocate 3, Release 3, Allocate 2]) =
     Some ([Offset (Some 0), Offset (Some 3), Done True, Offset (Some 3)],
           Some [(0, 3), (3, 2), (5, 5)], Some [(3, 2), (5, 5)]) \<and>
   adjacent_pair [(3, 2), (5, 5)]"
  by code_simp

text \<open>
  C3. A release that returns true does not always put the block into the available list.
  With 8 bytes, two allocations of 2 and the release of the second, the active list is
  (0, 2) and the available list is (2, 6). The release of offset 0 returns true and empties
  the active list, but \<^verbatim>\<open>add_available\<close> takes the stale \<^verbatim>\<open>prev\<close> of the head (2, 6),
  which is the released node itself, for its predecessor: \<^verbatim>\<open>p->available\<close> is not moved to
  the released node, the head is merged into it and freed. Afterwards \<^verbatim>\<open>p->available\<close>
  points to freed memory, the available list cannot be listed, and the one node left,
  (0, 8), is in neither list.
\<close>

theorem release_leaves_available_dangling:
  "map_option observe (run 8 [Allocate 2, Allocate 2, Release 2]) =
     Some ([Offset (Some 0), Offset (Some 2), Done True], Some [(0, 2)], Some [(2, 6)]) \<and>
   map_option observe (run 8 [Allocate 2, Allocate 2, Release 2, Release 0]) =
     Some ([Offset (Some 0), Offset (Some 2), Done True, Done True], Some [], None) \<and>
   map_option available_dangling (run 8 [Allocate 2, Allocate 2, Release 2, Release 0]) =
     Some True \<and>
   map_option allocated_nodes (run 8 [Allocate 2, Allocate 2, Release 2, Release 0]) =
     Some [(0, 8)]"
  by code_simp

text \<open>
  C4. An exact fit is not always taken out of the available list, and an allocation can
  succeed with no free byte left. With 6 bytes, two allocations of 2 and the release of the
  second, the only free block is (2, 4). Allocating 4 returns offset 2, and the block stays
  listed as available; allocating 4 once more returns offset 2 again.
\<close>

theorem exact_fit_stays_available:
  "map_option observe (run 6 [Allocate 2, Allocate 2, Release 2, Allocate 4]) =
     Some ([Offset (Some 0), Offset (Some 2), Done True, Offset (Some 2)],
           Some [(0, 2), (2, 4)], Some [(2, 4)]) \<and>
   map_option observe (run 6 [Allocate 2, Allocate 2, Release 2, Allocate 4, Allocate 4]) =
     Some ([Offset (Some 0), Offset (Some 2), Done True, Offset (Some 2), Offset (Some 2)],
           Some [(0, 2), (2, 4)], Some [(2, 4)])"
  by code_simp

text \<open>
  C5. The fallback of a growing resize does not always release the old block into the
  available list. With 10 bytes, three allocations of 1 and the release of offset 1, the
  lists are active (0, 1), (2, 1) and available (1, 1), (3, 7). Resizing offset 0 to 5
  cannot grow in place (the adjacent free block has 1 byte, 4 are needed), allocates
  (3, 5), and releases offset 0: the result is offset 3, but the release leaves
  \<^verbatim>\<open>p->available\<close> pointing to a freed node. The nodes (0, 2) and (8, 2), which should be
  the available list, are reachable from neither list head.
\<close>

theorem resize_fallback_loses_available:
  "map_option observe (run 10 [Allocate 1, Allocate 1, Allocate 1, Release 1]) =
     Some ([Offset (Some 0), Offset (Some 1), Offset (Some 2), Done True],
           Some [(0, 1), (2, 1)], Some [(1, 1), (3, 7)]) \<and>
   map_option observe (run 10 [Allocate 1, Allocate 1, Allocate 1, Release 1, Resize 0 5]) =
     Some ([Offset (Some 0), Offset (Some 1), Offset (Some 2), Done True, Offset (Some 3)],
           Some [(2, 1), (3, 5)], None) \<and>
   map_option available_dangling
     (run 10 [Allocate 1, Allocate 1, Allocate 1, Release 1, Resize 0 5]) = Some True \<and>
   map_option allocated_nodes
     (run 10 [Allocate 1, Allocate 1, Allocate 1, Release 1, Resize 0 5]) =
     Some [(0, 2), (2, 1), (3, 5), (8, 2)]"
  by code_simp

text \<open>
  C6. Growing in place does not always leave the remainder in the available list. With 10
  bytes, two allocations of 3 and the release of the second, the active block (0, 3) is
  followed by the free block (3, 7). Resizing offset 0 to 5 finds that block and splits it,
  and returns 0; but the remainder (5, 5) is linked behind the active node, \<^verbatim>\<open>p->available\<close>
  keeps pointing to the node that \<^verbatim>\<open>pool_realloc\<close> then frees, and the active list reads
  (0, 5), (5, 5).
\<close>

theorem grow_in_place_corrupts_lists:
  "map_option observe (run 10 [Allocate 3, Allocate 3, Release 3]) =
     Some ([Offset (Some 0), Offset (Some 3), Done True], Some [(0, 3)], Some [(3, 7)]) \<and>
   map_option observe (run 10 [Allocate 3, Allocate 3, Release 3, Resize 0 5]) =
     Some ([Offset (Some 0), Offset (Some 3), Done True, Offset (Some 0)],
           Some [(0, 5), (5, 5)], None) \<and>
   map_option available_dangling (run 10 [Allocate 3, Allocate 3, Release 3, Resize 0 5]) =
     Some True"
  by code_simp

text \<open>
  C7. Allocating and releasing at once does not always restore the available list. With 12
  bytes, two allocations of 4 and the release of the second, the available list is (4, 8).
  Allocating 3 bytes returns offset 4; releasing offset 4 returns true. Afterwards the
  available list cannot be listed (\<^verbatim>\<open>p->available\<close> points to a freed node), and the
  active list reads (0, 12) although only (0, 4) is allocated.
\<close>

theorem allocate_release_not_restoring:
  "map_option observe (run 12 [Allocate 4, Allocate 4, Release 4]) =
     Some ([Offset (Some 0), Offset (Some 4), Done True], Some [(0, 4)], Some [(4, 8)]) \<and>
   map_option observe (run 12 [Allocate 4, Allocate 4, Release 4, Allocate 3, Release 4]) =
     Some ([Offset (Some 0), Offset (Some 4), Done True, Offset (Some 4), Done True],
           Some [(0, 12)], None) \<and>
   map_option available_dangling
     (run 12 [Allocate 4, Allocate 4, Release 4, Allocate 3, Release 4]) = Some True"
  by code_simp

text \<open>
  C9. With an empty active list \<^verbatim>\<open>pool_destroy\<close> does not always return true with all
  bookkeeping released. With 4 bytes, two allocations of 1, the release of offset 1 and
  then of offset 0, every call succeeds and the active list is empty; but \<^verbatim>\<open>p->available\<close>
  points to a node that the last release has freed, so \<^verbatim>\<open>free(p->available)\<close> in
  \<^verbatim>\<open>pool_destroy\<close> frees it a second time, and the node (0, 4) is never freed.
\<close>

theorem destroy_frees_twice:
  "map_option observe (run 4 [Allocate 1, Allocate 1, Release 1, Release 0]) =
     Some ([Offset (Some 0), Offset (Some 1), Done True, Done True], Some [], None) \<and>
   map_option available_dangling (run 4 [Allocate 1, Allocate 1, Release 1, Release 0]) =
     Some True \<and>
   map_option allocated_nodes (run 4 [Allocate 1, Allocate 1, Release 1, Release 0]) =
     Some [(0, 4)] \<and>
   run 4 [Allocate 1, Allocate 1, Release 1, Release 0, Destroy] = None"
  by code_simp

text \<open>
  C10. An empty active list does not always come with an available list of one block
  spanning the buffer. With 10 bytes, two allocations of 3, the release of offset 3 and
  then of offset 0, the active list is empty, the one allocated node is (0, 10), but it is
  not the head of the available list: \<^verbatim>\<open>p->available\<close> points to a freed node.
\<close>

theorem empty_active_without_whole_block:
  "map_option observe (run 10 [Allocate 3, Allocate 3, Release 3, Release 0]) =
     Some ([Offset (Some 0), Offset (Some 3), Done True, Done True], Some [], None) \<and>
   map_option (pool_print_available \<circ> snd)
     (run 10 [Allocate 3, Allocate 3, Release 3, Release 0]) \<noteq> Some (Some [(0, 10)]) \<and>
   map_option available_dangling (run 10 [Allocate 3, Allocate 3, Release 3, Release 0]) =
     Some True \<and>
   map_option allocated_nodes (run 10 [Allocate 3, Allocate 3, Release 3, Release 0]) =
     Some [(0, 10)]"
  by code_simp

end
